theory Spec2Isabelle
  imports Complex_Main
begin

section \<open>Python values used by the scripts\<close>

text \<open>
  Numbers are modelled as mathematical reals: rounding, overflow and NaN of IEEE doubles are
  outside this development. A Python \<open>dict\<close> from mass/charge to intensity is an association
  list in insertion order; a dict never holds a key twice, which the theorems state as
  \<open>distinct (map fst d)\<close>. Exceptions are values of \<open>py_error\<close>, returned on the left of a sum.
\<close>

datatype py_error = ZeroDivisionError | KeyError | TypeError

type_synonym py_dict = "(real \<times> real) list"

definition py_div :: "real \<Rightarrow> real \<Rightarrow> py_error + real" where
  "py_div x y = (if y = 0 then Inl ZeroDivisionError else Inr (x / y))"

definition dict_getitem :: "py_dict \<Rightarrow> real \<Rightarrow> py_error + real" where
  "dict_getitem d k = (case map_of d k of None \<Rightarrow> Inl KeyError | Some v \<Rightarrow> Inr v)"



section \<open>script_06_skeleton_sim.py: configuration\<close>


definition MZ_TOLERANCE_DA :: real where
  "MZ_TOLERANCE_DA = 1 / 100"


section \<open>script_06_skeleton_sim.py: cosine_similarity\<close>

text \<open>
  The inner \<open>for idx2, mz2 in enumerate(keys2)\<close> with its \<open>break\<close>: the first index that is
  not in \<open>matched\<close> and whose key lies within the tolerance of \<open>mz1\<close>.
\<close>

fun find_match :: "real \<Rightarrow> (nat \<times> real) list \<Rightarrow> nat set \<Rightarrow> (nat \<times> real) option" where
  "find_match mz1 [] matched = None"
| "find_match mz1 ((idx2, mz2) # rest) matched =
     (if idx2 \<notin> matched \<and> \<bar>mz1 - mz2\<bar> \<le> MZ_TOLERANCE_DA then Some (idx2, mz2)
      else find_match mz1 rest matched)"

text \<open>The outer \<open>for mz1, int1 in peaks1.items()\<close>, threading \<open>dot_product\<close> and \<open>matched\<close>.\<close>

fun match_loop ::
  "(real \<times> real) list \<Rightarrow> py_dict \<Rightarrow> real list \<Rightarrow> real \<Rightarrow> nat set \<Rightarrow> py_error + real" where
  "match_loop [] peaks2 keys2 dot_product matched = Inr dot_product"
| "match_loop ((mz1, int1) # items) peaks2 keys2 dot_product matched =
     (case find_match mz1 (enumerate 0 keys2) matched of
        None \<Rightarrow> match_loop items peaks2 keys2 dot_product matched
      | Some (idx2, mz2) \<Rightarrow>
          (case dict_getitem peaks2 mz2 of
             Inl e \<Rightarrow> Inl e
           | Inr v \<Rightarrow>
               match_loop items peaks2 keys2 (dot_product + int1 * v) (insert idx2 matched)))"

definition norm_of :: "py_dict \<Rightarrow> real" where
  "norm_of peaks = sqrt (\<Sum>i\<leftarrow>map snd peaks. i\<^sup>2)"

definition cosine_similarity :: "py_dict \<Rightarrow> py_dict \<Rightarrow> py_error + real" where
  "cosine_similarity peaks1 peaks2 =
     (case match_loop peaks1 peaks2 (map fst peaks2) 0 {} of
        Inl e \<Rightarrow> Inl e
      | Inr dot_product \<Rightarrow>
          (let n1 = norm_of peaks1; n2 = norm_of peaks2
           in if n1 \<noteq> 0 \<and> n2 \<noteq> 0 then py_div dot_product (n1 * n2) else Inr 0))"

section \<open>script_06_skeleton_sim.py: calculate_spectral_entropy\<close>


section \<open>script_06_skeleton_sim.py: the pairwise network\<close>



















section \<open>script_03_cosine_similarity_calc.py: run_final_restoration_v2\<close>

text \<open>
  A loaded spectrum, as far as the search reads it: the metadata \<open>precursor_mz\<close>,
  \<open>retention_time\<close> and \<open>title\<close>, each of which \<open>s.get\<close> may return as \<open>None\<close>.
\<close>

record spectrum =
  precursor_mz :: "real option"
  retention_time :: "real option"
  title :: "string option"

text \<open>
  The seed loop. \<open>if curr_mz and curr_rt\<close> is false for \<open>None\<close> and for \<open>0\<close>. The loop stops
  at the first spectrum inside both windows, after assigning \<open>seed_idx\<close>; the message it then
  prints slices the title, which raises \<open>TypeError\<close> when the title is \<open>None\<close>.
\<close>

record seed_search =
  seed_idx :: "nat option"
  raised :: "py_error option"

fun find_seed :: "(nat \<times> spectrum) list \<Rightarrow> real \<Rightarrow> real \<Rightarrow> seed_search" where
  "find_seed [] target_mz target_rt = \<lparr>seed_idx = None, raised = None\<rparr>"
| "find_seed ((i, s) # rest) target_mz target_rt =
     (case (precursor_mz s, retention_time s) of
        (Some curr_mz, Some curr_rt) \<Rightarrow>
          if curr_mz \<noteq> 0 \<and> curr_rt \<noteq> 0 then
            if \<bar>curr_mz - target_mz\<bar> < 5 / 1000 \<and> \<bar>curr_rt - target_rt\<bar> < 2 then
              (case title s of
                 None \<Rightarrow> \<lparr>seed_idx = Some i, raised = Some TypeError\<rparr>
               | Some t \<Rightarrow> \<lparr>seed_idx = Some i, raised = None\<rparr>)
            else find_seed rest target_mz target_rt
          else find_seed rest target_mz target_rt
      | _ \<Rightarrow> find_seed rest target_mz target_rt)"

text \<open>
  The inner \<open>for i, other in enumerate(processed_spectrums)\<close> of the search, for the spectrum
  \<open>cur\<close> (\<open>curr\<close> in the source) taken from the queue. \<open>pair_score cur i\<close> stands for
  \<open>cosine_sim.pair(processed_spectrums[curr], other)['score']\<close>, computed by the matchms
  library on the merged and normalised spectra.
\<close>

fun scan ::
  "(nat \<Rightarrow> nat \<Rightarrow> real) \<Rightarrow> real \<Rightarrow> nat \<Rightarrow> nat list \<Rightarrow> nat set \<times> nat list \<Rightarrow> nat set \<times> nat list" where
  "scan pair_score threshold cur [] (selected_indices, to_explore) = (selected_indices, to_explore)"
| "scan pair_score threshold cur (i # rest) (selected_indices, to_explore) =
     (if i \<in> selected_indices then scan pair_score threshold cur rest (selected_indices, to_explore)
      else if threshold \<le> pair_score cur i then
        scan pair_score threshold cur rest (insert i selected_indices, to_explore @ [i])
      else scan pair_score threshold cur rest (selected_indices, to_explore))"

text \<open>The \<open>while to_explore\<close> loop; \<open>n\<close> is the number of spectra.\<close>

function bfs :: "(nat \<Rightarrow> nat \<Rightarrow> real) \<Rightarrow> real \<Rightarrow> nat \<Rightarrow> nat set \<Rightarrow> nat list \<Rightarrow> nat set" where
  "bfs pair_score threshold n selected_indices [] = selected_indices"
| "bfs pair_score threshold n selected_indices (cur # to_explore) =
     (case scan pair_score threshold cur [0..<n] (selected_indices, to_explore) of
        (selected_indices', to_explore') \<Rightarrow> bfs pair_score threshold n selected_indices' to_explore')"
  by pat_completeness auto
termination
proof (relation "measure (\<lambda>(pair_score, threshold, n, sel, q). 2 * card ({..<n} - sel) + length q)")
  show "wf (measure (\<lambda>(pair_score, threshold, n, sel, q). 2 * card ({..<n} - sel) + length q))"
    by simp
next
  fix pair_score :: "nat \<Rightarrow> nat \<Rightarrow> real" and threshold :: real and n :: nat
    and selected_indices :: "nat set" and cur :: nat and to_explore :: "nat list"
    and sel' :: "nat set" and q' :: "nat list"
  assume pr: "(sel', q') = scan pair_score threshold cur [0..<n] (selected_indices, to_explore)"
  have m: "2 * card ({..<n} - fst (scan pair_score threshold cur is (sel, q)))
             + length (snd (scan pair_score threshold cur is (sel, q)))
           \<le> 2 * card ({..<n} - sel) + length q"
    if "set is \<subseteq> {..<n}" for "is" sel q
    using that
  proof (induction "is" arbitrary: sel q)
    case Nil
    show ?case by simp
  next
    case (Cons i "is")
    from Cons.prems have sub: "set is \<subseteq> {..<n}" and i: "i < n" by simp_all
    show ?case
    proof (cases "i \<notin> sel \<and> threshold \<le> pair_score cur i")
      case True
      with i have mem: "i \<in> {..<n} - sel" by simp
      have "{..<n} - insert i sel = ({..<n} - sel) - {i}" by auto
      with mem have c: "card ({..<n} - insert i sel) = card ({..<n} - sel) - 1" by simp
      from mem have pos: "0 < card ({..<n} - sel)" by (auto simp: card_gt_0_iff)
      from Cons.IH [OF sub, of "insert i sel" "q @ [i]"] True c pos show ?thesis by simp
    next
      case False
      with Cons.IH [OF sub, of sel q] show ?thesis by auto
    qed
  qed
  have "set [0..<n] \<subseteq> {..<n}" by auto
  from m [OF this, of selected_indices to_explore] pr [symmetric]
  show "((pair_score, threshold, n, sel', q'),
         (pair_score, threshold, n, selected_indices, cur # to_explore))
        \<in> measure (\<lambda>(pair_score, threshold, n, sel, q). 2 * card ({..<n} - sel) + length q)"
    by auto
qed

text \<open>
  What a run that returns leaves behind: only the not-found message, with the output file
  untouched, or the output file holding the selected spectra. The function returns \<open>None\<close>
  in both cases.
\<close>

datatype run_result = NotFoundPrinted | Written "nat set"

definition run_final_restoration_v2 ::
  "(nat \<Rightarrow> nat \<Rightarrow> real) \<Rightarrow> spectrum list \<Rightarrow> real \<Rightarrow> real \<Rightarrow> real \<Rightarrow> py_error + run_result" where
  "run_final_restoration_v2 pair_score raw_spectrums target_mz target_rt threshold =
     (let found = find_seed (enumerate 0 raw_spectrums) target_mz target_rt
      in case raised found of
           Some err \<Rightarrow> Inl err
         | None \<Rightarrow>
             (case seed_idx found of
                None \<Rightarrow> Inr NotFoundPrinted
              | Some seed \<Rightarrow>
                  Inr (Written (bfs pair_score threshold (length raw_spectrums) {seed} [seed]))))"

text \<open>One step of the threshold relation among the \<open>n\<close> spectra.\<close>

definition threshold_rel :: "(nat \<Rightarrow> nat \<Rightarrow> real) \<Rightarrow> real \<Rightarrow> nat \<Rightarrow> (nat \<times> nat) set" where
  "threshold_rel pair_score threshold n = {(a, b). b < n \<and> threshold \<le> pair_score a b}"

text \<open>A score table for the examples: spectra 0, 1 and 2 form a chain.\<close>

definition example_score :: "nat \<Rightarrow> nat \<Rightarrow> real" where
  "example_score i j =
     (if (i, j) \<in> {(0, 1), (1, 0), (1, 2), (2, 1)} then 8 / 10 else 1 / 10)"

text \<open>The test a spectrum must pass to become the seed.\<close>

definition seed_test :: "spectrum \<Rightarrow> real \<Rightarrow> real \<Rightarrow> bool" where
  "seed_test s target_mz target_rt =
     (case (precursor_mz s, retention_time s) of
        (Some curr_mz, Some curr_rt) \<Rightarrow>
          curr_mz \<noteq> 0 \<and> curr_rt \<noteq> 0 \<and>
          \<bar>curr_mz - target_mz\<bar> < 5 / 1000 \<and> \<bar>curr_rt - target_rt\<bar> < 2
      | _ \<Rightarrow> False)"

section \<open>The greedy matching, stated on lists of unmatched peaks\<close>

text \<open>
  The same matching without indices: the peaks of the second spectrum that are still
  unmatched are kept as a list, and a matched peak is taken out of it.
\<close>

fun take_first :: "('a \<Rightarrow> bool) \<Rightarrow> 'a list \<Rightarrow> ('a \<times> 'a list) option" where
  "take_first P [] = None"
| "take_first P (x # xs) =
     (if P x then Some (x, xs)
      else (case take_first P xs of None \<Rightarrow> None | Some (y, ys) \<Rightarrow> Some (y, x # ys)))"

fun greedy_dot :: "real \<Rightarrow> (real \<times> real) list \<Rightarrow> (real \<times> real) list \<Rightarrow> real" where
  "greedy_dot tol [] B = 0"
| "greedy_dot tol ((mz, i) # A) B =
     (case take_first (\<lambda>p. \<bar>mz - fst p\<bar> \<le> tol) B of
        None \<Rightarrow> greedy_dot tol A B
      | Some (p, B') \<Rightarrow> i * snd p + greedy_dot tol A B')"

definition greedy_score :: "real \<Rightarrow> (real \<times> real) list \<Rightarrow> (real \<times> real) list \<Rightarrow> real" where
  "greedy_score tol A B =
     (if norm_of A = 0 \<or> norm_of B = 0 then 0
      else greedy_dot tol A B / (norm_of A * norm_of B))"

text \<open>The peaks of \<open>B\<close>, numbered from \<open>k\<close>, whose index is not in \<open>matched\<close>.\<close>

definition unmatched :: "nat \<Rightarrow> (real \<times> real) list \<Rightarrow> nat set \<Rightarrow> (real \<times> real) list" where
  "unmatched k B matched = map snd (filter (\<lambda>(i, p). i \<notin> matched) (enumerate k B))"

text \<open>The sum of the squared intensities, under the square root of \<open>norm_of\<close>.\<close>

definition sumsq :: "(real \<times> real) list \<Rightarrow> real" where
  "sumsq A = (\<Sum>i\<leftarrow>map snd A. i\<^sup>2)"

text \<open>
  The scorer as the specification words it: the peaks of \<open>A\<close> are processed in ascending
  mass/charge order, each takes the first peak of \<open>B\<close> not yet matched and within the
  tolerance, and the accumulated products are divided by the product of the full norms.
\<close>

definition spec_score :: "real \<Rightarrow> (real \<times> real) list \<Rightarrow> (real \<times> real) list \<Rightarrow> real" where
  "spec_score tol A B =
     (if norm_of A = 0 \<or> norm_of B = 0 then 0
      else greedy_dot tol (sort_key fst A) B / (norm_of A * norm_of B))"

section \<open>The pairwise network, stated on lists\<close>





section \<open>Properties of the greedy matching\<close>

lemma sumsq_Nil [simp]: "sumsq [] = 0"
  by (simp add: sumsq_def)

lemma sumsq_Cons [simp]: "sumsq (p # A) = (snd p)\<^sup>2 + sumsq A"
  by (simp add: sumsq_def)




lemma unmatched_Nil [simp]: "unmatched k [] M = []"
  by (simp add: unmatched_def)

lemma unmatched_Cons:
  "unmatched k (b # B) M = (if k \<in> M then unmatched (Suc k) B M else b # unmatched (Suc k) B M)"
  by (simp add: unmatched_def)

lemma unmatched_insert_below: "j < k \<Longrightarrow> unmatched k B (insert j M) = unmatched k B M"
proof (induction B arbitrary: k)
  case Nil
  show ?case by simp
next
  case (Cons b B)
  from Cons.prems have "j < Suc k" and "k \<noteq> j" by simp_all
  with Cons.IH [of "Suc k"] show ?case by (simp add: unmatched_Cons)
qed

lemma unmatched_empty: "unmatched k B {} = B"
  by (induction B arbitrary: k) (simp_all add: unmatched_Cons)

lemma find_match_None:
  "find_match mz1 (enumerate k (map fst B)) M = None \<Longrightarrow>
   take_first (\<lambda>p. \<bar>mz1 - fst p\<bar> \<le> MZ_TOLERANCE_DA) (unmatched k B M) = None"
proof (induction B arbitrary: k)
  case Nil
  show ?case by simp
next
  case (Cons b B)
  then show ?case
    by (cases b) (auto simp: unmatched_Cons split: if_splits)
qed

lemma find_match_Some:
  "find_match mz1 (enumerate k (map fst B)) M = Some (idx2, mz2) \<Longrightarrow>
   k \<le> idx2 \<and> idx2 < k + length B \<and> idx2 \<notin> M \<and> mz2 = fst (B ! (idx2 - k)) \<and>
   take_first (\<lambda>p. \<bar>mz1 - fst p\<bar> \<le> MZ_TOLERANCE_DA) (unmatched k B M)
     = Some (B ! (idx2 - k), unmatched k B (insert idx2 M))"
proof (induction B arbitrary: k)
  case Nil
  then show ?case by simp
next
  case (Cons b B)
  obtain mz i where b: "b = (mz, i)" by (cases b)
  show ?case
  proof (cases "k \<notin> M \<and> \<bar>mz1 - mz\<bar> \<le> MZ_TOLERANCE_DA")
    case True
    with Cons.prems b have "idx2 = k" "mz2 = mz" by simp_all
    with True b show ?thesis
      by (simp add: unmatched_Cons unmatched_insert_below)
  next
    case False
    with Cons.prems b have fm: "find_match mz1 (enumerate (Suc k) (map fst B)) M = Some (idx2, mz2)"
      by auto
    note ih = Cons.IH [OF fm]
    from ih have gt: "Suc k \<le> idx2" by simp
    then have nth: "(b # B) ! (idx2 - k) = B ! (idx2 - Suc k)"
      by (simp add: Suc_diff_le)
    from gt have ne: "k \<noteq> idx2" by simp
    show ?thesis
    proof (cases "k \<in> M")
      case True
      with ih gt nth ne show ?thesis by (simp add: unmatched_Cons)
    next
      case kM: False
      with False b have "\<not> \<bar>mz1 - fst b\<bar> \<le> MZ_TOLERANCE_DA" by simp
      with ih gt nth ne kM show ?thesis by (simp add: unmatched_Cons)
    qed
  qed
qed

lemma dict_getitem_nth:
  "distinct (map fst d) \<Longrightarrow> i < length d \<Longrightarrow> dict_getitem d (fst (d ! i)) = Inr (snd (d ! i))"
proof -
  assume d: "distinct (map fst d)" and i: "i < length d"
  from i have "(fst (d ! i), snd (d ! i)) \<in> set d" by simp
  with d have "map_of d (fst (d ! i)) = Some (snd (d ! i))" by (rule map_of_is_SomeI)
  then show ?thesis by (simp add: dict_getitem_def)
qed

lemma match_loop_greedy:
  "distinct (map fst B) \<Longrightarrow>
   match_loop A B (map fst B) dot M
     = Inr (dot + greedy_dot MZ_TOLERANCE_DA A (unmatched 0 B M))"
proof (induction A arbitrary: dot M)
  case Nil
  show ?case by simp
next
  case (Cons a A)
  obtain mz1 int1 where a: "a = (mz1, int1)" by (cases a)
  show ?case
  proof (cases "find_match mz1 (enumerate 0 (map fst B)) M")
    case None
    from find_match_None [OF None] None a Cons.IH [OF Cons.prems] show ?thesis by simp
  next
    case (Some r)
    obtain idx2 mz2 where r: "r = (idx2, mz2)" by (cases r)
    from find_match_Some [OF Some [unfolded r]]
    have lt: "idx2 < length B" and mz2: "mz2 = fst (B ! idx2)"
      and tf: "take_first (\<lambda>p. \<bar>mz1 - fst p\<bar> \<le> MZ_TOLERANCE_DA) (unmatched 0 B M)
                 = Some (B ! idx2, unmatched 0 B (insert idx2 M))"
      by simp_all
    from dict_getitem_nth [OF Cons.prems lt] mz2
    have get: "dict_getitem B mz2 = Inr (snd (B ! idx2))" by simp
    from Some r get tf a Cons.IH [OF Cons.prems] show ?thesis by simp
  qed
qed

lemma cosine_similarity_greedy:
  assumes "distinct (map fst B)"
  shows "cosine_similarity A B = Inr (greedy_score MZ_TOLERANCE_DA A B)"
  using match_loop_greedy [OF assms, of A 0 "{}"]
  by (simp add: cosine_similarity_def greedy_score_def unmatched_empty py_div_def Let_def)

lemma take_first_None_iff: "take_first P xs = None \<longleftrightarrow> (\<forall>x\<in>set xs. \<not> P x)"
  by (induction xs) (auto split: option.splits)


text \<open>A peak that no peak of \<open>B\<close> can reach does not change the matching driven from \<open>B\<close>.\<close>

lemma greedy_dot_skip:
  "\<forall>b\<in>set B. \<not> \<bar>fst b - fst a\<bar> \<le> tol \<Longrightarrow> greedy_dot tol B (a # A) = greedy_dot tol B A"
proof (induction B arbitrary: A)
  case Nil
  show ?case by simp
next
  case (Cons b B)
  obtain mz i where b: "b = (mz, i)" by (cases b)
  from Cons.prems b have na: "\<not> \<bar>mz - fst a\<bar> \<le> tol" by simp
  from Cons.prems have rest: "\<forall>b\<in>set B. \<not> \<bar>fst b - fst a\<bar> \<le> tol" by simp
  show ?case
  proof (cases "take_first (\<lambda>p. \<bar>mz - fst p\<bar> \<le> tol) A")
    case None
    with na b Cons.IH [OF rest] show ?thesis by simp
  next
    case (Some r)
    obtain y ys where r: "r = (y, ys)" by (cases r)
    with Some na b Cons.IH [OF rest, of ys] show ?thesis by simp
  qed
qed

lemma greedy_dot_first:
  "\<forall>b\<in>set B1. \<not> \<bar>fst b - fst a\<bar> \<le> tol \<Longrightarrow> \<bar>fst b' - fst a\<bar> \<le> tol \<Longrightarrow>
   greedy_dot tol (B1 @ b' # B2) (a # A) = snd a * snd b' + greedy_dot tol (B1 @ B2) A"
proof (induction B1 arbitrary: A)
  case Nil
  then show ?case by (cases b') simp
next
  case (Cons b B1)
  obtain mz i where b: "b = (mz, i)" by (cases b)
  from Cons.prems b have na: "\<not> \<bar>mz - fst a\<bar> \<le> tol" by simp
  from Cons.prems have rest: "\<forall>b\<in>set B1. \<not> \<bar>fst b - fst a\<bar> \<le> tol" by simp
  note ih = Cons.IH [OF rest Cons.prems(2)]
  show ?case
  proof (cases "take_first (\<lambda>p. \<bar>mz - fst p\<bar> \<le> tol) A")
    case None
    with na b ih [of A] show ?thesis by simp
  next
    case (Some r)
    obtain y ys where r: "r = (y, ys)" by (cases r)
    with Some na b ih [of ys] show ?thesis by simp
  qed
qed

lemma take_first_split:
  "take_first P xs = Some (y, ys) \<Longrightarrow>
   \<exists>xs1 xs2. xs = xs1 @ y # xs2 \<and> ys = xs1 @ xs2 \<and> (\<forall>x\<in>set xs1. \<not> P x) \<and> P y"
proof (induction xs arbitrary: ys)
  case Nil
  then show ?case by simp
next
  case (Cons x xs)
  show ?case
  proof (cases "P x")
    case True
    with Cons.prems have "y = x" "ys = xs" by simp_all
    with True show ?thesis by (intro exI [of _ "[]"] exI [of _ xs]) simp
  next
    case False
    with Cons.prems obtain zs where tf: "take_first P xs = Some (y, zs)" and ys: "ys = x # zs"
      by (auto split: option.splits)
    from Cons.IH [OF tf] obtain xs1 xs2 where
      "xs = xs1 @ y # xs2" "zs = xs1 @ xs2" "\<forall>x\<in>set xs1. \<not> P x" "P y" by blast
    with False ys show ?thesis
      by (intro exI [of _ "x # xs1"] exI [of _ xs2]) simp
  qed
qed

lemma greedy_dot_sym: "greedy_dot tol A B = greedy_dot tol B A"
proof (induction A arbitrary: B)
  case Nil
  show ?case by (induction B) (auto)
next
  case (Cons a A)
  obtain mz i where a: "a = (mz, i)" by (cases a)
  show ?case
  proof (cases "take_first (\<lambda>p. \<bar>mz - fst p\<bar> \<le> tol) B")
    case None
    then have "\<forall>b\<in>set B. \<not> \<bar>fst b - fst a\<bar> \<le> tol"
      by (auto simp: take_first_None_iff a abs_minus_commute)
    from greedy_dot_skip [OF this] None a Cons.IH [of B] show ?thesis by simp
  next
    case (Some r)
    obtain y ys where r: "r = (y, ys)" by (cases r)
    from take_first_split [OF Some [unfolded r]] obtain B1 B2 where
      B: "B = B1 @ y # B2" and ys: "ys = B1 @ B2"
      and no: "\<forall>x\<in>set B1. \<not> \<bar>mz - fst x\<bar> \<le> tol" and yes: "\<bar>mz - fst y\<bar> \<le> tol"
      by blast
    from no a have no': "\<forall>b\<in>set B1. \<not> \<bar>fst b - fst a\<bar> \<le> tol"
      by (simp add: abs_minus_commute)
    from yes a have yes': "\<bar>fst y - fst a\<bar> \<le> tol" by (simp add: abs_minus_commute)
    from greedy_dot_first [OF no' yes', of B2 A] B ys Some r a Cons.IH [of ys]
    show ?thesis by simp
  qed
qed

lemma greedy_dot_Nil2 [simp]: "greedy_dot tol A [] = 0"
  by (induction A) auto











lemma greedy_score_sym: "greedy_score tol A B = greedy_score tol B A"
  using greedy_dot_sym [of tol A B] by (auto simp: greedy_score_def mult.commute)




text \<open>
  Claim C2. The score is symmetric: the greedy matching driven from \<open>A\<close> and the one driven
  from \<open>B\<close> pair the same peaks, so both calls return the same value.
\<close>

theorem cosine_similarity_symmetric:
  assumes "distinct (map fst A)" "distinct (map fst B)"
  shows "cosine_similarity A B = cosine_similarity B A"
  using cosine_similarity_greedy [OF assms(2), of A] cosine_similarity_greedy [OF assms(1), of B]
    greedy_score_sym [of MZ_TOLERANCE_DA A B]
  by simp

lemma norm_3_4: "norm_of [(a, 3), (b, 4)] = 5"
proof -
  have "norm_of [(a, 3), (b, 4)] = sqrt (5\<^sup>2)" by (simp add: norm_of_def)
  also have "\<dots> = 5" by simp
  finally show ?thesis .
qed

lemma norm_single: "norm_of [(a, x)] = \<bar>x\<bar>"
  by (simp add: norm_of_def)

text \<open>
  Symmetry on two spectra whose tolerance windows overlap in a chain.
\<close>

theorem cosine_similarity_symmetric_witness:
  "cosine_similarity [(100, 3), (100.02, 4)] [(100.01, 2), (100.03, 7)]
     = cosine_similarity [(100.01, 2), (100.03, 7)] [(100, 3), (100.02, 4)]"
proof -
  have "distinct (map fst [(100 :: real, 3 :: real), (100.02, 4)])"
    and "distinct (map fst [(100.01 :: real, 2 :: real), (100.03, 7)])" by simp_all
  then show ?thesis by (rule cosine_similarity_symmetric)
qed



lemma example_value:
  "cosine_similarity [(100, 10), (200, 20)] [(100.005, 10), (300, 5)] = Inr (2 / 5)"
proof -
  have n1: "norm_of [(a, 10), (b, 20)] = sqrt 500" for a b by (simp add: norm_of_def)
  have n2: "norm_of [(a, 10), (b, 5)] = sqrt 125" for a b by (simp add: norm_of_def)
  have "sqrt 500 * sqrt 125 = sqrt (250\<^sup>2)" by (simp add: real_sqrt_mult [symmetric])
  also have "\<dots> = 250" by simp
  finally have prod: "sqrt 500 * sqrt 125 = 250" .
  show ?thesis
    by (simp add: cosine_similarity_def n1 n2 prod py_div_def MZ_TOLERANCE_DA_def
        dict_getitem_def enumerate_eq_zip)
qed

text \<open>
  Claim C4, amended. The scorer processes the peaks of \<open>A\<close> in their stored order, pairs
  each with the first peak of \<open>B\<close> not yet matched and within the tolerance, uses every
  peak of \<open>B\<close> at most once, adds the intensity products of the matched pairs and divides
  by the product of the full norms. When \<open>A\<close> is stored in ascending mass/charge order this
  is the specified ascending-order scorer, and the example of the specification scores 0.4.
\<close>

theorem cosine_similarity_stored_order:
  assumes "distinct (map fst B)"
  shows "cosine_similarity A B = Inr (greedy_score MZ_TOLERANCE_DA A B) \<and>
         (sorted (map fst A) \<longrightarrow> cosine_similarity A B = Inr (spec_score MZ_TOLERANCE_DA A B)) \<and>
         cosine_similarity [(100, 10), (200, 20)] [(100.005, 10), (300, 5)] = Inr (2 / 5)"
proof -
  have g: "cosine_similarity A B = Inr (greedy_score MZ_TOLERANCE_DA A B)"
    by (rule cosine_similarity_greedy [OF assms])
  have "sorted (map fst A) \<Longrightarrow> spec_score MZ_TOLERANCE_DA A B = greedy_score MZ_TOLERANCE_DA A B"
    by (simp add: spec_score_def greedy_score_def sort_key_id_if_sorted)
  with g example_value show ?thesis by simp
qed

text \<open>
  An ascending spectrum, on which the code and the ascending-order scorer agree.
\<close>

theorem cosine_similarity_stored_order_witness:
  "sorted (map fst [(100 :: real, 3 :: real), (100.01, 4)]) \<and>
   cosine_similarity [(100, 3), (100.01, 4)] [(100.005, 1)]
     = Inr (spec_score MZ_TOLERANCE_DA [(100, 3), (100.01, 4)] [(100.005, 1)]) \<and>
   spec_score MZ_TOLERANCE_DA [(100, 3), (100.01, 4)] [(100.005, 1)] = 3 / 5"
proof -
  have d: "distinct (map fst [(100.005 :: real, 1 :: real)])" by simp
  have s: "sorted (map fst [(100 :: real, 3 :: real), (100.01, 4)])" by simp
  have v: "spec_score MZ_TOLERANCE_DA [(100, 3), (100.01, 4)] [(100.005, 1)] = 3 / 5"
    by (simp add: spec_score_def norm_3_4 norm_single MZ_TOLERANCE_DA_def)
  from cosine_similarity_stored_order [OF d, of "[(100, 3), (100.01, 4)]"]
  have "sorted (map fst [(100 :: real, 3 :: real), (100.01, 4)]) \<longrightarrow>
        cosine_similarity [(100, 3), (100.01, 4)] [(100.005, 1)]
          = Inr (spec_score MZ_TOLERANCE_DA [(100, 3), (100.01, 4)] [(100.005, 1)])"
    by blast
  with s v show ?thesis by blast
qed

text \<open>
  Claim C4 as stated fails on a spectrum stored in descending order: the code lets the
  peak at 100.01 take the only peak of \<open>B\<close> and scores 3/5, the ascending-order scorer gives
  it to the peak at 100.0 and scores 4/5.
\<close>

theorem cosine_similarity_not_ascending:
  "cosine_similarity [(100.01, 3), (100, 4)] [(100.005, 1)] = Inr (3 / 5) \<and>
   spec_score MZ_TOLERANCE_DA [(100.01, 3), (100, 4)] [(100.005, 1)] = 4 / 5 \<and>
   cosine_similarity [(100.01, 3), (100, 4)] [(100.005, 1)]
     \<noteq> Inr (spec_score MZ_TOLERANCE_DA [(100.01, 3), (100, 4)] [(100.005, 1)])"
proof -
  have c: "cosine_similarity [(100.01, 3), (100, 4)] [(100.005, 1)] = Inr (3 / 5)"
    by (simp add: cosine_similarity_def norm_3_4 norm_single MZ_TOLERANCE_DA_def
        dict_getitem_def enumerate_eq_zip py_div_def)
  have s: "spec_score MZ_TOLERANCE_DA [(100.01, 3), (100, 4)] [(100.005, 1)] = 4 / 5"
    by (simp add: spec_score_def norm_3_4 norm_single MZ_TOLERANCE_DA_def)
  from c s show ?thesis by simp
qed

section \<open>Properties of the spectral entropy\<close>














section \<open>Properties of the pairwise network\<close>
































section \<open>Properties of the seed search and the expansion\<close>

lemma scan_fst:
  "fst (scan pair_score threshold cur is (sel, q))
     = sel \<union> {i \<in> set is. threshold \<le> pair_score cur i}"
  by (induction "is" arbitrary: sel q) auto

lemma scan_snd:
  "set (snd (scan pair_score threshold cur is (sel, q)))
     = set q \<union> {i \<in> set is. i \<notin> sel \<and> threshold \<le> pair_score cur i}"
  by (induction "is" arbitrary: sel q) auto

lemma scan_upt_fst:
  "fst (scan pair_score threshold cur [0..<n] (sel, q))
     = sel \<union> threshold_rel pair_score threshold n `` {cur}"
  by (auto simp: scan_fst threshold_rel_def)

lemma scan_upt_snd:
  "set (snd (scan pair_score threshold cur [0..<n] (sel, q)))
     = set q \<union> (threshold_rel pair_score threshold n `` {cur} - sel)"
  by (auto simp: scan_snd threshold_rel_def)

lemma closed_contains_reachable:
  assumes "seed \<in> S" and "\<forall>a\<in>S. R `` {a} \<subseteq> S"
  shows "R\<^sup>* `` {seed} \<subseteq> S"
proof
  fix b
  assume "b \<in> R\<^sup>* `` {seed}"
  then have "(seed, b) \<in> R\<^sup>*" by simp
  then show "b \<in> S"
    using assms by (induction rule: rtrancl_induct) auto
qed

lemma bfs_closure_inv:
  assumes "seed \<in> sel" and "set q \<subseteq> sel"
    and "sel \<subseteq> (threshold_rel pair_score threshold n)\<^sup>* `` {seed}"
    and "\<forall>a\<in>sel - set q. threshold_rel pair_score threshold n `` {a} \<subseteq> sel"
  shows "bfs pair_score threshold n sel q = (threshold_rel pair_score threshold n)\<^sup>* `` {seed}"
  using assms
proof (induction pair_score threshold n sel q rule: bfs.induct)
  case (1 pair_score threshold n sel)
  from closed_contains_reachable [of seed sel "threshold_rel pair_score threshold n"] 1
  show ?case by auto
next
  case (2 pair_score threshold n sel cur rest)
  let ?R = "threshold_rel pair_score threshold n"
  obtain sel' q' where sc: "scan pair_score threshold cur [0..<n] (sel, rest) = (sel', q')"
    by (cases "scan pair_score threshold cur [0..<n] (sel, rest)")
  from scan_upt_fst [of pair_score threshold cur n sel rest] sc
  have sel': "sel' = sel \<union> ?R `` {cur}" by simp
  from scan_upt_snd [of pair_score threshold cur n sel rest] sc
  have q': "set q' = set rest \<union> (?R `` {cur} - sel)" by simp
  from "2.prems" have cur: "cur \<in> sel" "(seed, cur) \<in> ?R\<^sup>*" by auto
  have a: "seed \<in> sel'" using "2.prems"(1) sel' by simp
  have b: "set q' \<subseteq> sel'" using "2.prems"(2) sel' q' by auto
  have c: "sel' \<subseteq> ?R\<^sup>* `` {seed}"
  proof
    fix x assume "x \<in> sel'"
    with sel' have "x \<in> sel \<or> (cur, x) \<in> ?R" by auto
    then show "x \<in> ?R\<^sup>* `` {seed}"
    proof
      assume "x \<in> sel" with "2.prems"(3) show ?thesis by blast
    next
      assume "(cur, x) \<in> ?R"
      with cur(2) have "(seed, x) \<in> ?R\<^sup>*" by (rule rtrancl_into_rtrancl)
      then show ?thesis by simp
    qed
  qed
  have d: "\<forall>a\<in>sel' - set q'. ?R `` {a} \<subseteq> sel'"
  proof
    fix a assume a: "a \<in> sel' - set q'"
    with sel' q' have "a \<in> sel" and nr: "a \<notin> set rest" by auto
    show "?R `` {a} \<subseteq> sel'"
    proof (cases "a = cur")
      case True
      with sel' show ?thesis by auto
    next
      case False
      with \<open>a \<in> sel\<close> nr have "a \<in> sel - set (cur # rest)" by simp
      with "2.prems"(4) have "?R `` {a} \<subseteq> sel" by blast
      with sel' show ?thesis by auto
    qed
  qed
  from "2.IH" [OF sc [symmetric] a b c d] sc show ?case by simp
qed

lemma bfs_closure:
  "bfs pair_score threshold n {seed} [seed] = (threshold_rel pair_score threshold n)\<^sup>* `` {seed}"
  by (rule bfs_closure_inv) auto

lemma bfs_mono: "sel \<subseteq> bfs pair_score threshold n sel q"
proof (induction pair_score threshold n sel q rule: bfs.induct)
  case (1 pair_score threshold n sel)
  show ?case by simp
next
  case (2 pair_score threshold n sel cur rest)
  obtain sel' q' where sc: "scan pair_score threshold cur [0..<n] (sel, rest) = (sel', q')"
    by (cases "scan pair_score threshold cur [0..<n] (sel, rest)")
  from scan_fst [of pair_score threshold cur "[0..<n]" sel rest] sc have "sel \<subseteq> sel'" by auto
  with "2.IH" [OF sc [symmetric]] sc show ?case by auto
qed

lemma find_seed_find:
  "find_seed xs target_mz target_rt =
     (case find (\<lambda>(i, s). seed_test s target_mz target_rt) xs of
        None \<Rightarrow> \<lparr>seed_idx = None, raised = None\<rparr>
      | Some (i, s) \<Rightarrow>
          \<lparr>seed_idx = Some i, raised = (if title s = None then Some TypeError else None)\<rparr>)"
proof (induction xs)
  case Nil
  show ?case by simp
next
  case (Cons x xs)
  obtain i s where x: "x = (i, s)" by (cases x)
  show ?case
    unfolding x using Cons.IH
    by (cases "precursor_mz s"; cases "retention_time s"; cases "title s")
       (simp_all add: seed_test_def)
qed

lemma find_enumerate_Some:
  "find (\<lambda>(i, s). P s) (enumerate 0 xs) = Some (i, s) \<longleftrightarrow>
   i < length xs \<and> s = xs ! i \<and> P (xs ! i) \<and> (\<forall>j<i. \<not> P (xs ! j))"
proof -
  have "find (\<lambda>(i, s). P s) (enumerate 0 xs) = Some (i, s) \<longleftrightarrow>
        (\<exists>k<length xs. P (xs ! k) \<and> (i, s) = (k, xs ! k) \<and> (\<forall>j<k. \<not> P (xs ! j)))"
    by (simp add: find_Some_iff nth_enumerate_eq cong: conj_cong)
  then show ?thesis by auto
qed

lemma find_enumerate_None:
  "find (\<lambda>(i, s). P s) (enumerate k xs) = None \<longleftrightarrow> (\<forall>s\<in>set xs. \<not> P s)"
  by (induction xs arbitrary: k) auto

lemma seed_idx_Some:
  "seed_idx (find_seed (enumerate 0 specs) target_mz target_rt) = Some i \<longleftrightarrow>
   i < length specs \<and> seed_test (specs ! i) target_mz target_rt \<and>
   (\<forall>j<i. \<not> seed_test (specs ! j) target_mz target_rt)"
proof (cases "find (\<lambda>(i, s). seed_test s target_mz target_rt) (enumerate 0 specs)")
  case None
  then have "\<forall>s\<in>set specs. \<not> seed_test s target_mz target_rt"
    by (simp only: find_enumerate_None)
  then have "i < length specs \<Longrightarrow> \<not> seed_test (specs ! i) target_mz target_rt"
    by simp
  with None show ?thesis by (auto simp: find_seed_find)
next
  case (Some r)
  obtain k s where r: "r = (k, s)" by (cases r)
  from Some [unfolded r]
  have "k < length specs \<and> s = specs ! k \<and> seed_test (specs ! k) target_mz target_rt \<and>
        (\<forall>j<k. \<not> seed_test (specs ! j) target_mz target_rt)"
    by (rule find_enumerate_Some [THEN iffD1])
  then have k: "k < length specs" "seed_test (specs ! k) target_mz target_rt"
    "\<forall>j<k. \<not> seed_test (specs ! j) target_mz target_rt"
    by blast+
  have "seed_idx (find_seed (enumerate 0 specs) target_mz target_rt) = Some k"
    using Some r by (simp add: find_seed_find)
  moreover have "i = k" if "i < length specs" "seed_test (specs ! i) target_mz target_rt"
    "\<forall>j<i. \<not> seed_test (specs ! j) target_mz target_rt"
    using that k by (meson linorder_neqE_nat)
  ultimately show ?thesis using k by auto
qed

lemma seed_idx_None:
  "\<forall>s\<in>set specs. \<not> seed_test s target_mz target_rt \<Longrightarrow>
   find_seed (enumerate 0 specs) target_mz target_rt = \<lparr>seed_idx = None, raised = None\<rparr>"
  by (simp add: find_seed_find find_enumerate_None [THEN iffD2])

text \<open>
  Claim C10. The seed is the first spectrum in input order that passes the seed test. The
  test needs both the precursor mass/charge and the retention time to be present and
  nonzero, and to lie strictly within 0.005 and 2.0 of the targets; so a spectrum with a
  missing or zero value is never the seed, wherever it lies.
\<close>

theorem seed_location:
  "(seed_idx (find_seed (enumerate 0 specs) target_mz target_rt) = Some i \<longleftrightarrow>
      i < length specs \<and> seed_test (specs ! i) target_mz target_rt \<and>
      (\<forall>j<i. \<not> seed_test (specs ! j) target_mz target_rt)) \<and>
   (seed_test s target_mz target_rt \<longleftrightarrow>
      (\<exists>mz rt. precursor_mz s = Some mz \<and> retention_time s = Some rt \<and> mz \<noteq> 0 \<and> rt \<noteq> 0 \<and>
         \<bar>mz - target_mz\<bar> < 5 / 1000 \<and> \<bar>rt - target_rt\<bar> < 2)) \<and>
   (precursor_mz s = None \<or> precursor_mz s = Some 0 \<or>
    retention_time s = None \<or> retention_time s = Some 0 \<longrightarrow> \<not> seed_test s target_mz target_rt)"
proof -
  have a: "seed_test s target_mz target_rt \<longleftrightarrow>
      (\<exists>mz rt. precursor_mz s = Some mz \<and> retention_time s = Some rt \<and> mz \<noteq> 0 \<and> rt \<noteq> 0 \<and>
         \<bar>mz - target_mz\<bar> < 5 / 1000 \<and> \<bar>rt - target_rt\<bar> < 2)"
    by (auto simp: seed_test_def split: option.splits)
  then have b: "precursor_mz s = None \<or> precursor_mz s = Some 0 \<or>
    retention_time s = None \<or> retention_time s = Some 0 \<longrightarrow> \<not> seed_test s target_mz target_rt"
    by auto
  from seed_idx_Some [of specs target_mz target_rt i] a b show ?thesis by blast
qed

text \<open>
  Claim C7, amended. When no spectrum passes the seed test the run returns normally: it
  raises nothing, only the not-found message is printed, and no output is written.
\<close>

theorem no_seed_returns_normally:
  assumes "\<forall>s\<in>set specs. \<not> seed_test s target_mz target_rt"
  shows "run_final_restoration_v2 pair_score specs target_mz target_rt threshold = Inr NotFoundPrinted"
  using seed_idx_None [OF assms] by (simp add: run_final_restoration_v2_def)

text \<open>
  Claim C6. The set the expansion returns is the set of spectra reachable from the seed by
  a chain of scores that each reach the threshold, no more and no less. The selected set
  only grows, in every scan and over the whole search, and a run that found its seed writes
  exactly that closure.
\<close>

theorem bfs_reachable_closure:
  "bfs pair_score threshold n {seed} [seed]
     = {i. (seed, i) \<in> (threshold_rel pair_score threshold n)\<^sup>*} \<and>
   sel \<subseteq> fst (scan pair_score threshold cur cands (sel, q)) \<and>
   sel \<subseteq> bfs pair_score threshold n sel q \<and>
   (find_seed (enumerate 0 specs) target_mz target_rt = \<lparr>seed_idx = Some seed, raised = None\<rparr> \<longrightarrow>
      run_final_restoration_v2 pair_score specs target_mz target_rt threshold
        = Inr (Written {i. (seed, i) \<in> (threshold_rel pair_score threshold (length specs))\<^sup>*}))"
proof -
  have c: "bfs pair_score threshold m {seed} [seed]
     = {i. (seed, i) \<in> (threshold_rel pair_score threshold m)\<^sup>*}" for m
    using bfs_closure [of pair_score threshold m seed] by auto
  have s: "sel \<subseteq> fst (scan pair_score threshold cur cands (sel, q))"
    by (simp add: scan_fst)
  have r: "find_seed (enumerate 0 specs) target_mz target_rt = \<lparr>seed_idx = Some seed, raised = None\<rparr> \<longrightarrow>
      run_final_restoration_v2 pair_score specs target_mz target_rt threshold
        = Inr (Written {i. (seed, i) \<in> (threshold_rel pair_score threshold (length specs))\<^sup>*})"
    by (simp add: run_final_restoration_v2_def c del: bfs.simps)
  from c [of n] s bfs_mono [of sel pair_score threshold n q] r show ?thesis by blast
qed

lemma less_2_all: "(\<forall>j<Suc 0. P j) \<longleftrightarrow> P 0"
  by auto

text \<open>
  The first spectrum has the target mass/charge but no retention time and is skipped; the
  second becomes the seed.
\<close>

theorem seed_location_witness:
  "seed_idx (find_seed (enumerate 0
      [\<lparr>precursor_mz = Some 289.2534, retention_time = None, title = Some ''a''\<rparr>,
       \<lparr>precursor_mz = Some 289.2534, retention_time = Some 1201.59, title = Some ''b''\<rparr>,
       \<lparr>precursor_mz = Some 289.2535, retention_time = Some 1201, title = Some ''c''\<rparr>,
       \<lparr>precursor_mz = Some 305.1, retention_time = Some 900, title = Some ''d''\<rparr>])
      289.2534 1201.59) = Some 1 \<and>
   \<not> seed_test \<lparr>precursor_mz = Some 289.2534, retention_time = None, title = Some ''a''\<rparr>
       289.2534 1201.59"
proof -
  let ?s0 = "\<lparr>precursor_mz = Some 289.2534, retention_time = None, title = Some ''a''\<rparr>"
  let ?specs = "[?s0,
       \<lparr>precursor_mz = Some 289.2534, retention_time = Some 1201.59, title = Some ''b''\<rparr>,
       \<lparr>precursor_mz = Some 289.2535, retention_time = Some 1201, title = Some ''c''\<rparr>,
       \<lparr>precursor_mz = Some 305.1, retention_time = Some 900, title = Some ''d''\<rparr>]"
  note t = seed_location [of ?specs "289.2534" "1201.59" 1 ?s0]
  from t have skip: "\<not> seed_test ?s0 289.2534 1201.59" by simp
  have hit: "seed_test (?specs ! 1) 289.2534 1201.59"
    by (simp add: seed_test_def)
  from t have "seed_idx (find_seed (enumerate 0 ?specs) 289.2534 1201.59) = Some 1 \<longleftrightarrow>
      1 < length ?specs \<and> seed_test (?specs ! 1) 289.2534 1201.59 \<and>
      (\<forall>j<1. \<not> seed_test (?specs ! j) 289.2534 1201.59)"
    by blast
  with hit skip have "seed_idx (find_seed (enumerate 0 ?specs) 289.2534 1201.59) = Some 1"
    by (simp add: less_2_all)
  with skip show ?thesis by blast
qed

text \<open>
  A collection whose only candidate lacks a retention time.
\<close>

theorem no_seed_returns_normally_witness:
  "run_final_restoration_v2 example_score
     [\<lparr>precursor_mz = Some 289.2534, retention_time = None, title = Some ''a''\<rparr>,
      \<lparr>precursor_mz = Some 305.1, retention_time = Some 900, title = Some ''d''\<rparr>]
     289.2534 1201.59 (7 / 10) = Inr NotFoundPrinted"
  by (rule no_seed_returns_normally) (simp add: seed_test_def)

text \<open>
  Claim C7 as stated fails: a collection without a matching spectrum does not end in an
  error, the call returns.
\<close>

theorem no_seed_not_an_error:
  "run_final_restoration_v2 example_score
     [\<lparr>precursor_mz = Some 300, retention_time = Some 100, title = Some ''x''\<rparr>]
     289.25 1201.59 (7 / 10) = Inr NotFoundPrinted \<and>
   \<not> isl (run_final_restoration_v2 example_score
     [\<lparr>precursor_mz = Some 300, retention_time = Some 100, title = Some ''x''\<rparr>]
     289.25 1201.59 (7 / 10))"
  by (simp add: run_final_restoration_v2_def enumerate_eq_zip)

lemma upt_4: "[0..<4] = [0, 1, 2, 3]"
  by (simp add: upt_rec)

lemma example_bfs: "bfs example_score (7 / 10) 4 {1} [1] = {0, 1, 2}"
  by (simp add: upt_4 example_score_def insert_commute)

text \<open>
  Four spectra: the seed is spectrum 1, spectra 0 and 2 are reached, spectrum 3 is not.
\<close>

theorem bfs_reachable_closure_witness:
  "run_final_restoration_v2 example_score
      [\<lparr>precursor_mz = Some 289.2534, retention_time = None, title = Some ''a''\<rparr>,
       \<lparr>precursor_mz = Some 289.2534, retention_time = Some 1201.59, title = Some ''b''\<rparr>,
       \<lparr>precursor_mz = Some 289.2535, retention_time = Some 1201, title = Some ''c''\<rparr>,
       \<lparr>precursor_mz = Some 305.1, retention_time = Some 900, title = Some ''d''\<rparr>]
      289.2534 1201.59 (7 / 10) = Inr (Written {0, 1, 2}) \<and>
   {i. (1, i) \<in> (threshold_rel example_score (7 / 10) 4)\<^sup>*} = {0, 1, 2}"
proof -
  let ?specs = "[\<lparr>precursor_mz = Some 289.2534, retention_time = None, title = Some ''a''\<rparr>,
       \<lparr>precursor_mz = Some 289.2534, retention_time = Some 1201.59, title = Some ''b''\<rparr>,
       \<lparr>precursor_mz = Some 289.2535, retention_time = Some 1201, title = Some ''c''\<rparr>,
       \<lparr>precursor_mz = Some 305.1, retention_time = Some 900, title = Some ''d''\<rparr>]"
  note t = bfs_reachable_closure [of example_score "7 / 10" 4 1 "{}" 0 "[]" "[]" ?specs "289.2534" "1201.59"]
  have seed: "find_seed (enumerate 0 ?specs) 289.2534 1201.59 = \<lparr>seed_idx = Some 1, raised = None\<rparr>"
    by (simp add: enumerate_eq_zip upt_4)
  from t example_bfs have cl: "{i. (1, i) \<in> (threshold_rel example_score (7 / 10) 4)\<^sup>*} = {0, 1, 2}"
    by simp
  have len: "length ?specs = 4" by simp
  from t seed have "run_final_restoration_v2 example_score ?specs 289.2534 1201.59 (7 / 10)
      = Inr (Written {i. (1, i) \<in> (threshold_rel example_score (7 / 10) (length ?specs))\<^sup>*})"
    by blast
  then have "run_final_restoration_v2 example_score ?specs 289.2534 1201.59 (7 / 10)
      = Inr (Written {0, 1, 2})"
    unfolding len cl .
  with cl show ?thesis by blast
qed

end
